theory Spec2Isabelle
  imports Complex_Main "HOL-Library.AList"
begin

section \<open>Tokens, values and errors\<close>

text \<open>
  The token kinds of \<^verbatim>\<open>class TokenType(Enum)\<close>.
\<close>

datatype TokenType =
    COMMENT_SINGLE | COMMENT_MULTI_START | COMMENT_MULTI_END | DEFINE
  | CONST_EXPR_START | CONST_EXPR_END | ARRAY_START | ARRAY_END
  | STRING | NUMBER | HEX_NUMBER | NAME | OPERATOR | FUNCTION | COMMA | EOF

record Token =
  ttype :: TokenType
  tvalue :: string
  tline :: nat
  tcol :: nat

text \<open>
  The values the parser builds are Python objects: an \<^verbatim>\<open>int\<close> (unbounded), a
  \<^verbatim>\<open>str\<close> or a \<^verbatim>\<open>list\<close> of values.
\<close>

datatype pyvalue = VInt int | VStr string | VList "pyvalue list"

text \<open>
  The messages handed to \<^verbatim>\<open>Lexer.error\<close> and \<^verbatim>\<open>Parser.error\<close>, one constructor per
  format string of the source, with the values the format string interpolates.
\<close>

datatype message =
    Unclosed_multi_line_comment
  | Unclosed_string
  | Unexpected_token_after_paren string
  | Unexpected_character char
  | Expected_got TokenType TokenType
  | Unexpected_token_in_value TokenType
  | Not_enough_operands string
  | Division_by_zero
  | Unknown_operator string
  | Not_enough_arguments string
  | Expects_numeric_argument string
  | Unknown_function string
  | Unexpected_token_in_constant_expression TokenType
  | Invalid_constant_expression
  | Invalid_constant_expression_argument string
  | Unknown_constant string
  | Expected_name_after_define
  | Unexpected_token TokenType

text \<open>
  Every way a call can leave by an exception. \<^verbatim>\<open>SyntaxError\<close> is what both
  \<^verbatim>\<open>error\<close> methods raise, with the line and column they format into the text
  (the lexer's position, or the position of the parser's current token).
  \<^verbatim>\<open>ValueError\<close> and \<^verbatim>\<open>TypeError\<close> are raised by Python itself: by
  \<^verbatim>\<open>int(...)\<close> on a malformed literal, by an arithmetic operator or \<^verbatim>\<open>abs\<close> on
  operands of the wrong type, and by \<^verbatim>\<open>None in 'xX'\<close>; \<^verbatim>\<open>ZeroDivisionError\<close>
  is what \<^verbatim>\<open>//\<close> raises on a zero divisor.
\<close>

datatype error = SyntaxError message nat nat | ValueError | TypeError | ZeroDivisionError

section \<open>The lexer\<close>

text \<open>
  \<^verbatim>\<open>class Lexer\<close>. The fields \<^verbatim>\<open>text\<close> and \<^verbatim>\<open>pos\<close> are kept as the suffix
  \<^verbatim>\<open>text[pos:]\<close>, so that \<^verbatim>\<open>current_char\<close> is its first character (\<open>None\<close> when it
  is empty) and \<^verbatim>\<open>peek()\<close> its second. Input is ASCII text, and the character classes
  below are Python's \<^verbatim>\<open>str\<close> predicates on ASCII characters.
\<close>

record Lexer =
  rest :: string
  line :: nat
  col :: nat

definition new_Lexer :: "string \<Rightarrow> Lexer" where
  "new_Lexer text = \<lparr>rest = text, line = 1, col = 1\<rparr>"

definition current_char :: "Lexer \<Rightarrow> char option" where
  "current_char lx = (case rest lx of [] \<Rightarrow> None | c # _ \<Rightarrow> Some c)"

definition peek :: "Lexer \<Rightarrow> char option" where
  "peek lx = (case rest lx of c # d # _ \<Rightarrow> Some d | _ \<Rightarrow> None)"

definition lexer_error :: "Lexer \<Rightarrow> message \<Rightarrow> error" where
  "lexer_error lx m = SyntaxError m (line lx) (col lx)"

definition advance :: "Lexer \<Rightarrow> Lexer" where
  "advance lx =
     (case rest lx of
        [] \<Rightarrow> lx\<lparr>col := col lx + 1\<rparr>
      | c # cs \<Rightarrow>
          if c = CHR 0x0A then lx\<lparr>rest := cs, line := line lx + 1, col := 1\<rparr>
          else lx\<lparr>rest := cs, col := col lx + 1\<rparr>)"

definition isspace :: "char \<Rightarrow> bool" where
  "isspace c \<longleftrightarrow> c \<in> set [CHR 0x20, CHR 0x09, CHR 0x0A, CHR 0x0B, CHR 0x0C, CHR 0x0D,
                            CHR 0x1C, CHR 0x1D, CHR 0x1E, CHR 0x1F]"

definition isdigit :: "char \<Rightarrow> bool" where
  "isdigit c \<longleftrightarrow> c \<in> set ''0123456789''"

definition islower :: "char \<Rightarrow> bool" where
  "islower c \<longleftrightarrow> c \<in> set ''abcdefghijklmnopqrstuvwxyz''"

definition isupper :: "char \<Rightarrow> bool" where
  "isupper c \<longleftrightarrow> c \<in> set ''ABCDEFGHIJKLMNOPQRSTUVWXYZ''"

definition isalpha :: "char \<Rightarrow> bool" where
  "isalpha c \<longleftrightarrow> islower c \<or> isupper c"

definition isalnum :: "char \<Rightarrow> bool" where
  "isalnum c \<longleftrightarrow> isalpha c \<or> isdigit c"

definition ishexdigit :: "char \<Rightarrow> bool" where
  "ishexdigit c \<longleftrightarrow> c \<in> set ''0123456789'' \<or> c \<in> set ''abcdef'' \<or> c \<in> set ''ABCDEF''"

function skip_whitespace :: "Lexer \<Rightarrow> Lexer" where
  "skip_whitespace lx =
     (case current_char lx of
        None \<Rightarrow> lx
      | Some c \<Rightarrow> if isspace c then skip_whitespace (advance lx) else lx)"
  by pat_completeness auto
termination
  by (relation "measure (\<lambda>lx. length (rest lx))")
     (auto simp: current_char_def advance_def split: list.splits)

declare skip_whitespace.simps [simp del]

function skip_single_comment :: "Lexer \<Rightarrow> Lexer" where
  "skip_single_comment lx =
     (case current_char lx of
        None \<Rightarrow> lx
      | Some c \<Rightarrow> if c \<noteq> CHR 0x0A then skip_single_comment (advance lx) else advance lx)"
  by pat_completeness auto
termination
  by (relation "measure (\<lambda>lx. length (rest lx))")
     (auto simp: current_char_def advance_def split: list.splits)

declare skip_single_comment.simps [simp del]

text \<open>
  The \<^verbatim>\<open>while ... else\<close> loop of \<^verbatim>\<open>skip_multi_comment\<close>: the \<^verbatim>\<open>else\<close> branch runs when
  the input ends before \<^verbatim>\<open>#>\<close> is met.
\<close>

function skip_multi_comment_loop :: "Lexer \<Rightarrow> error + Lexer" where
  "skip_multi_comment_loop lx =
     (case current_char lx of
        None \<Rightarrow> Inl (lexer_error lx Unclosed_multi_line_comment)
      | Some c \<Rightarrow>
          if c = CHR ''#'' \<and> peek lx = Some CHR ''>'' then Inr (advance (advance lx))
          else skip_multi_comment_loop (advance lx))"
  by pat_completeness auto
termination
  by (relation "measure (\<lambda>lx. length (rest lx))")
     (auto simp: current_char_def advance_def split: list.splits)

declare skip_multi_comment_loop.simps [simp del]

definition skip_multi_comment :: "Lexer \<Rightarrow> error + Lexer" where
  "skip_multi_comment lx = skip_multi_comment_loop (advance (advance lx))"

function read_name_loop :: "string \<Rightarrow> Lexer \<Rightarrow> string \<times> Lexer" where
  "read_name_loop result lx =
     (case current_char lx of
        None \<Rightarrow> (result, lx)
      | Some c \<Rightarrow>
          if isalnum c \<or> c = CHR ''_'' then read_name_loop (result @ [c]) (advance lx)
          else (result, lx))"
  by pat_completeness auto
termination
  by (relation "measure (\<lambda>(r, lx). length (rest lx))")
     (auto simp: current_char_def advance_def split: list.splits)

declare read_name_loop.simps [simp del]

definition read_name :: "Lexer \<Rightarrow> string \<times> Lexer" where
  "read_name lx = read_name_loop [] lx"

function read_hex_loop :: "string \<Rightarrow> Lexer \<Rightarrow> string \<times> Lexer" where
  "read_hex_loop result lx =
     (case current_char lx of
        None \<Rightarrow> (result, lx)
      | Some c \<Rightarrow>
          if ishexdigit c then read_hex_loop (result @ [c]) (advance lx)
          else (result, lx))"
  by pat_completeness auto
termination
  by (relation "measure (\<lambda>(r, lx). length (rest lx))")
     (auto simp: current_char_def advance_def split: list.splits)

declare read_hex_loop.simps [simp del]

function read_decimal_loop :: "string \<Rightarrow> Lexer \<Rightarrow> string \<times> Lexer" where
  "read_decimal_loop result lx =
     (case current_char lx of
        None \<Rightarrow> (result, lx)
      | Some c \<Rightarrow>
          if isdigit c then read_decimal_loop (result @ [c]) (advance lx)
          else (result, lx))"
  by pat_completeness auto
termination
  by (relation "measure (\<lambda>(r, lx). length (rest lx))")
     (auto simp: current_char_def advance_def split: list.splits)

declare read_decimal_loop.simps [simp del]

text \<open>
  \<^verbatim>\<open>read_number\<close>. The test \<^verbatim>\<open>self.peek() in 'xX'\<close> is evaluated whenever the current
  character is \<^verbatim>\<open>0\<close>; when \<^verbatim>\<open>0\<close> is the last character of the text, \<^verbatim>\<open>peek()\<close> is
  \<^verbatim>\<open>None\<close> and Python raises \<^verbatim>\<open>TypeError\<close> for \<^verbatim>\<open>None in 'xX'\<close>.
\<close>

definition read_number :: "Lexer \<Rightarrow> error + (string \<times> Lexer)" where
  "read_number lx =
     (if current_char lx = Some CHR ''0'' then
        (case peek lx of
           None \<Rightarrow> Inl TypeError
         | Some d \<Rightarrow>
             if d = CHR ''x'' \<or> d = CHR ''X'' then
               Inr (read_hex_loop [CHR ''0'', d] (advance (advance lx)))
             else Inr (read_decimal_loop [] lx))
      else Inr (read_decimal_loop [] lx))"

function read_string_loop :: "string \<Rightarrow> Lexer \<Rightarrow> error + (string \<times> Lexer)" where
  "read_string_loop result lx =
     (case current_char lx of
        None \<Rightarrow> Inl (lexer_error lx Unclosed_string)
      | Some c \<Rightarrow>
          if c = CHR 0x22 \<and> peek lx \<noteq> Some CHR 0x22 then Inr (result, advance lx)
          else if c = CHR 0x22 \<and> peek lx = Some CHR 0x22 then
            read_string_loop (result @ [c]) (advance (advance lx))
          else read_string_loop (result @ [c]) (advance lx))"
  by pat_completeness auto
termination
  by (relation "measure (\<lambda>(r, lx). length (rest lx))")
     (auto simp: current_char_def peek_def advance_def split: list.splits)

declare read_string_loop.simps [simp del]

definition read_string :: "Lexer \<Rightarrow> error + (string \<times> Lexer)" where
  "read_string lx = read_string_loop [] (advance (advance lx))"


text \<open>
  How much of the text each reading loop leaves: none of them moves backwards. These facts
  carry the termination of \<open>get_next_token\<close> and of the parser's loops.
\<close>

lemma rest_advance_le: "length (rest (advance lx)) \<le> length (rest lx)"
  by (simp add: advance_def split: list.splits)

lemma rest_advance_less:
  "current_char lx = Some c \<Longrightarrow> length (rest (advance lx)) < length (rest lx)"
  by (simp add: advance_def current_char_def split: list.splits)

lemma rest_skip_whitespace_le: "length (rest (skip_whitespace lx)) \<le> length (rest lx)"
proof (induction lx rule: skip_whitespace.induct)
  case (1 lx)
  show ?case
  proof (cases "current_char lx")
    case None
    then show ?thesis by (simp add: skip_whitespace.simps [of lx])
  next
    case (Some c)
    show ?thesis
    proof (cases "isspace c")
      case True
      with Some "1.IH"
      have "length (rest (skip_whitespace (advance lx))) \<le> length (rest (advance lx))"
        by simp
      moreover have "skip_whitespace lx = skip_whitespace (advance lx)"
        using Some True by (simp add: skip_whitespace.simps [of lx])
      ultimately show ?thesis
        using rest_advance_le [of lx] by simp
    next
      case False
      with Some show ?thesis by (simp add: skip_whitespace.simps [of lx])
    qed
  qed
qed

lemma rest_skip_single_comment_le:
  "length (rest (skip_single_comment lx)) \<le> length (rest lx)"
proof (induction lx rule: skip_single_comment.induct)
  case (1 lx)
  show ?case
  proof (cases "current_char lx")
    case None
    then show ?thesis by (simp add: skip_single_comment.simps [of lx])
  next
    case (Some c)
    show ?thesis
    proof (cases "c \<noteq> CHR 0x0A")
      case True
      with Some "1.IH"
      have "length (rest (skip_single_comment (advance lx))) \<le> length (rest (advance lx))"
        by simp
      moreover have "skip_single_comment lx = skip_single_comment (advance lx)"
        using Some True by (simp add: skip_single_comment.simps [of lx])
      ultimately show ?thesis
        using rest_advance_le [of lx] by simp
    next
      case False
      with Some show ?thesis
        using rest_advance_le [of lx] by (simp add: skip_single_comment.simps [of lx])
    qed
  qed
qed

lemma rest_skip_multi_comment_loop_le:
  "skip_multi_comment_loop lx = Inr lx' \<Longrightarrow> length (rest lx') \<le> length (rest lx)"
proof (induction lx rule: skip_multi_comment_loop.induct)
  case (1 lx)
  note unfold = skip_multi_comment_loop.simps [of lx]
  show ?case
  proof (cases "current_char lx")
    case None
    with "1.prems" show ?thesis by (simp add: unfold)
  next
    case (Some c)
    show ?thesis
    proof (cases "c = CHR ''#'' \<and> peek lx = Some CHR ''>''")
      case True
      with Some "1.prems" have "lx' = advance (advance lx)" by (simp add: unfold)
      then show ?thesis
        using rest_advance_le [of lx] rest_advance_le [of "advance lx"] by simp
    next
      case False
      with Some "1.prems" have "skip_multi_comment_loop (advance lx) = Inr lx'"
        by (auto simp: unfold)
      with Some False "1.IH" have "length (rest lx') \<le> length (rest (advance lx))" by blast
      then show ?thesis
        using rest_advance_le [of lx] by simp
    qed
  qed
qed

lemma rest_skip_multi_comment_less:
  "current_char lx = Some c \<Longrightarrow> skip_multi_comment lx = Inr lx'
   \<Longrightarrow> length (rest lx') < length (rest lx)"
  unfolding skip_multi_comment_def
  using rest_skip_multi_comment_loop_le [of "advance (advance lx)" lx']
    rest_advance_le [of "advance lx"] rest_advance_less [of lx c]
  by simp

text \<open>
  \<^verbatim>\<open>get_next_token\<close>: the \<^verbatim>\<open>while\<close> loop goes round again (\<^verbatim>\<open>continue\<close>) after white
  space and after either comment, and leaves by \<^verbatim>\<open>return\<close> or by an error in every
  other branch. The token is returned together with the lexer as the call leaves it.
\<close>

definition mk_token :: "TokenType \<Rightarrow> string \<Rightarrow> Lexer \<Rightarrow> Token" where
  "mk_token ty v start = \<lparr>ttype = ty, tvalue = v, tline = line start, tcol = col start\<rparr>"

function get_next_token :: "Lexer \<Rightarrow> error + (Token \<times> Lexer)" where
  "get_next_token lx =
     (case current_char lx of
        None \<Rightarrow> Inr (mk_token EOF [] lx, lx)
      | Some c \<Rightarrow>
          if isspace c then get_next_token (skip_whitespace lx)
          else if c = CHR ''%'' then get_next_token (skip_single_comment (advance lx))
          else if c = CHR ''<'' \<and> peek lx = Some CHR ''#'' then
            (case skip_multi_comment lx of
               Inl e \<Rightarrow> Inl e
             | Inr lx' \<Rightarrow> get_next_token lx')
          else if c = CHR ''.'' \<and> peek lx = Some CHR ''{'' then
            Inr (mk_token CONST_EXPR_START ''.{'' lx, advance (advance lx))
          else if c = CHR ''}'' \<and> peek lx = Some CHR ''.'' then
            Inr (mk_token CONST_EXPR_END ''}.'' lx, advance (advance lx))
          else if c = CHR ''@'' \<and> peek lx = Some CHR 0x22 then
            (case read_string lx of
               Inl e \<Rightarrow> Inl e
             | Inr (v, lx') \<Rightarrow> Inr (mk_token STRING v lx, lx'))
          else if c = CHR ''('' then
            (case read_name (advance lx) of
               (name, lx') \<Rightarrow>
                 if name = ''define'' then Inr (mk_token DEFINE ''define'' lx, lx')
                 else Inl (lexer_error lx' (Unexpected_token_after_paren name)))
          else if c = CHR ''['' then Inr (mk_token ARRAY_START ''['' lx, advance lx)
          else if c = CHR '']'' then Inr (mk_token ARRAY_END '']'' lx, advance lx)
          else if c = CHR '','' then Inr (mk_token COMMA '','' lx, advance lx)
          else if isdigit c then
            (case read_number lx of
               Inl e \<Rightarrow> Inl e
             | Inr (number, lx') \<Rightarrow>
                 if take 2 number = ''0x'' \<or> take 2 number = ''0X''
                 then Inr (mk_token HEX_NUMBER number lx, lx')
                 else Inr (mk_token NUMBER number lx, lx'))
          else if isalpha c \<and> islower c then
            (case read_name lx of
               (name, lx') \<Rightarrow>
                 if name = ''abs'' then Inr (mk_token FUNCTION name lx, lx')
                 else if name \<in> set [''+'', ''-'', ''*'', ''/'']
                 then Inr (mk_token OPERATOR name lx, lx')
                 else Inr (mk_token NAME name lx, lx'))
          else if c \<in> set ''+-*/'' then Inr (mk_token OPERATOR [c] lx, advance lx)
          else Inl (lexer_error lx (Unexpected_character c)))"
  by pat_completeness auto
termination
proof (relation "measure (\<lambda>lx. length (rest lx))")
  show "wf (measure (\<lambda>lx. length (rest lx)))" by simp
next
  fix lx c
  assume c: "current_char lx = Some c" and sp: "isspace c"
  have "skip_whitespace lx = skip_whitespace (advance lx)"
    using c sp by (simp add: skip_whitespace.simps [of lx])
  then show "(skip_whitespace lx, lx) \<in> measure (\<lambda>lx. length (rest lx))"
    using rest_skip_whitespace_le [of "advance lx"] rest_advance_less [OF c] by simp
next
  fix lx c
  assume c: "current_char lx = Some c"
  show "(skip_single_comment (advance lx), lx) \<in> measure (\<lambda>lx. length (rest lx))"
    using rest_skip_single_comment_le [of "advance lx"] rest_advance_less [OF c] by simp
next
  fix lx c lx'
  assume "current_char lx = Some c" and "skip_multi_comment lx = Inr lx'"
  then show "(lx', lx) \<in> measure (\<lambda>lx. length (rest lx))"
    using rest_skip_multi_comment_less by simp
qed

declare get_next_token.simps [simp del]

lemma rest_read_name_loop_le:
  "read_name_loop r lx = (v, lx') \<Longrightarrow> length (rest lx') \<le> length (rest lx)"
proof (induction r lx rule: read_name_loop.induct)
  case (1 result lx)
  note unfold = read_name_loop.simps [of result lx]
  show ?case
  proof (cases "current_char lx")
    case None
    with "1.prems" show ?thesis by (simp add: unfold)
  next
    case (Some c)
    show ?thesis
    proof (cases "isalnum c \<or> c = CHR ''_''")
      case True
      with Some "1.prems" have "read_name_loop (result @ [c]) (advance lx) = (v, lx')"
        by (simp add: unfold)
      with Some True "1.IH" have "length (rest lx') \<le> length (rest (advance lx))" by blast
      then show ?thesis using rest_advance_le [of lx] by simp
    next
      case False
      with Some "1.prems" show ?thesis by (simp add: unfold)
    qed
  qed
qed

lemma rest_read_hex_loop_le:
  "read_hex_loop r lx = (v, lx') \<Longrightarrow> length (rest lx') \<le> length (rest lx)"
proof (induction r lx rule: read_hex_loop.induct)
  case (1 result lx)
  note unfold = read_hex_loop.simps [of result lx]
  show ?case
  proof (cases "current_char lx")
    case None
    with "1.prems" show ?thesis by (simp add: unfold)
  next
    case (Some c)
    show ?thesis
    proof (cases "ishexdigit c")
      case True
      with Some "1.prems" have "read_hex_loop (result @ [c]) (advance lx) = (v, lx')"
        by (simp add: unfold)
      with Some True "1.IH" have "length (rest lx') \<le> length (rest (advance lx))" by blast
      then show ?thesis using rest_advance_le [of lx] by simp
    next
      case False
      with Some "1.prems" show ?thesis by (simp add: unfold)
    qed
  qed
qed

lemma rest_read_decimal_loop_le:
  "read_decimal_loop r lx = (v, lx') \<Longrightarrow> length (rest lx') \<le> length (rest lx)"
proof (induction r lx rule: read_decimal_loop.induct)
  case (1 result lx)
  note unfold = read_decimal_loop.simps [of result lx]
  show ?case
  proof (cases "current_char lx")
    case None
    with "1.prems" show ?thesis by (simp add: unfold)
  next
    case (Some c)
    show ?thesis
    proof (cases "isdigit c")
      case True
      with Some "1.prems" have "read_decimal_loop (result @ [c]) (advance lx) = (v, lx')"
        by (simp add: unfold)
      with Some True "1.IH" have "length (rest lx') \<le> length (rest (advance lx))" by blast
      then show ?thesis using rest_advance_le [of lx] by simp
    next
      case False
      with Some "1.prems" show ?thesis by (simp add: unfold)
    qed
  qed
qed

lemma rest_read_string_loop_le:
  "read_string_loop r lx = Inr (v, lx') \<Longrightarrow> length (rest lx') \<le> length (rest lx)"
proof (induction r lx rule: read_string_loop.induct)
  case (1 result lx)
  note unfold = read_string_loop.simps [of result lx]
  show ?case
  proof (cases "current_char lx")
    case None
    with "1.prems" show ?thesis by (simp add: unfold)
  next
    case (Some c)
    consider (close) "c = CHR 0x22" "peek lx \<noteq> Some CHR 0x22"
      | (escape) "c = CHR 0x22" "peek lx = Some CHR 0x22"
      | (plain) "c \<noteq> CHR 0x22"
      by blast
    then show ?thesis
    proof cases
      case close
      with Some "1.prems" have "lx' = advance lx" by (simp add: unfold)
      then show ?thesis using rest_advance_le [of lx] by simp
    next
      case escape
      with Some "1.prems"
      have "read_string_loop (result @ [c]) (advance (advance lx)) = Inr (v, lx')"
        by (simp add: unfold)
      with Some escape "1.IH"(1)
      have "length (rest lx') \<le> length (rest (advance (advance lx)))" by simp
      then show ?thesis
        using rest_advance_le [of lx] rest_advance_le [of "advance lx"] by simp
    next
      case plain
      with Some "1.prems"
      have "read_string_loop (result @ [c]) (advance lx) = Inr (v, lx')"
        by (simp add: unfold)
      with Some plain "1.IH"(2)
      have "length (rest lx') \<le> length (rest (advance lx))" by simp
      then show ?thesis using rest_advance_le [of lx] by simp
    qed
  qed
qed

lemma rest_read_number_less:
  assumes "current_char lx = Some c" and "isdigit c" and "read_number lx = Inr (v, lx')"
  shows "length (rest lx') < length (rest lx)"
proof -
  have dec: "length (rest lx') < length (rest lx)" if "read_decimal_loop [] lx = (v, lx')"
  proof -
    from that assms(1,2) have "read_decimal_loop [c] (advance lx) = (v, lx')"
      by (simp add: read_decimal_loop.simps [of "[]" lx])
    then have "length (rest lx') \<le> length (rest (advance lx))"
      by (rule rest_read_decimal_loop_le)
    then show ?thesis using rest_advance_less [OF assms(1)] by simp
  qed
  have hex: "length (rest lx') < length (rest lx)"
    if "read_hex_loop r (advance (advance lx)) = (v, lx')" for r
  proof -
    from that have "length (rest lx') \<le> length (rest (advance (advance lx)))"
      by (rule rest_read_hex_loop_le)
    then show ?thesis
      using rest_advance_less [OF assms(1)] rest_advance_le [of "advance lx"] by simp
  qed
  from assms(3) show ?thesis
    by (auto simp: read_number_def dec hex split: if_splits option.splits)
qed

lemma get_next_token_rest:
  "get_next_token lx = Inr (tok, lx')
   \<Longrightarrow> length (rest lx') \<le> length (rest lx)
       \<and> (ttype tok \<noteq> EOF \<longrightarrow> length (rest lx') < length (rest lx))"
proof (induction lx rule: get_next_token.induct)
  case (1 lx)
  note unfold = get_next_token.simps [of lx]
  show ?case
  proof (cases "current_char lx")
    case None
    with "1.prems" show ?thesis by (auto simp: unfold mk_token_def)
  next
    case (Some c)
    note adv = rest_advance_less [OF Some] rest_advance_le [of "advance lx"]
    consider (ws) "isspace c"
      | (pct) "\<not> isspace c" "c = CHR ''%''"
      | (multi) "\<not> isspace c" "c \<noteq> CHR ''%''" "c = CHR ''<'' \<and> peek lx = Some CHR ''#''"
      | (other) "\<not> isspace c" "c \<noteq> CHR ''%''" "\<not> (c = CHR ''<'' \<and> peek lx = Some CHR ''#'')"
      by blast
    then show ?thesis
    proof cases
      case ws
      with Some "1.prems" have eq: "get_next_token (skip_whitespace lx) = Inr (tok, lx')"
        by (simp add: unfold)
      have "skip_whitespace lx = skip_whitespace (advance lx)"
        using Some ws by (simp add: skip_whitespace.simps [of lx])
      then have "length (rest (skip_whitespace lx)) < length (rest lx)"
        using rest_skip_whitespace_le [of "advance lx"] adv by simp
      with "1.IH"(1) [OF Some ws eq] show ?thesis by simp
    next
      case pct
      with Some "1.prems"
      have eq: "get_next_token (skip_single_comment (advance lx)) = Inr (tok, lx')"
        by (simp add: unfold)
      have "length (rest (skip_single_comment (advance lx))) < length (rest lx)"
        using rest_skip_single_comment_le [of "advance lx"] adv by simp
      with "1.IH"(2) [OF Some pct eq] show ?thesis by simp
    next
      case multi
      with Some "1.prems" obtain lx1 where
        m: "skip_multi_comment lx = Inr lx1" and eq: "get_next_token lx1 = Inr (tok, lx')"
        by (auto simp: unfold split: sum.splits)
      have "length (rest lx1) < length (rest lx)"
        using rest_skip_multi_comment_less [OF Some m] .
      with "1.IH"(3) [OF Some multi(1,2,3) m eq] show ?thesis by simp
    next
      case other
      have name: "length (rest b) < length (rest lx)" if "read_name lx = (a, b)" "isalpha c" for a b
      proof -
        from that Some have "read_name_loop [c] (advance lx) = (a, b)"
          by (simp add: read_name_def isalnum_def read_name_loop.simps [of "[]" lx])
        from rest_read_name_loop_le [OF this] adv show ?thesis by simp
      qed
      have paren: "length (rest b) < length (rest lx)" if "read_name (advance lx) = (a, b)" for a b
        using rest_read_name_loop_le [of "[]" "advance lx" a b] that adv
        by (simp add: read_name_def)
      have str: "length (rest b) < length (rest lx)" if "read_string lx = Inr (a, b)" for a b
        using rest_read_string_loop_le [of "[]" "advance (advance lx)" a b] that adv
        by (simp add: read_string_def)
      have num: "length (rest b) < length (rest lx)"
        if "read_number lx = Inr (a, b)" "isdigit c" for a b
        using rest_read_number_less [OF Some that(2,1)] .
      let ?ce = "c = CHR ''.'' \<and> peek lx = Some CHR ''{''"
      let ?cx = "c = CHR ''}'' \<and> peek lx = Some CHR ''.''"
      let ?cs = "c = CHR ''@'' \<and> peek lx = Some CHR 0x22"
      consider (b_cstart) ?ce
        | (b_cend) "\<not> ?ce" ?cx
        | (b_string) "\<not> ?ce" "\<not> ?cx" ?cs
        | (b_paren) "\<not> ?ce" "\<not> ?cx" "\<not> ?cs" "c = CHR ''(''"
        | (b_single) "\<not> ?ce" "\<not> ?cx" "\<not> ?cs" "c \<noteq> CHR ''(''"
            "c = CHR ''['' \<or> c = CHR '']'' \<or> c = CHR '',''"
        | (b_digit) "\<not> ?ce" "\<not> ?cx" "\<not> ?cs" "c \<noteq> CHR ''(''"
            "\<not> (c = CHR ''['' \<or> c = CHR '']'' \<or> c = CHR '','')" "isdigit c"
        | (b_name) "\<not> ?ce" "\<not> ?cx" "\<not> ?cs" "c \<noteq> CHR ''(''"
            "\<not> (c = CHR ''['' \<or> c = CHR '']'' \<or> c = CHR '','')" "\<not> isdigit c"
            "isalpha c \<and> islower c"
        | (b_rest) "\<not> ?ce" "\<not> ?cx" "\<not> ?cs" "c \<noteq> CHR ''(''"
            "\<not> (c = CHR ''['' \<or> c = CHR '']'' \<or> c = CHR '','')" "\<not> isdigit c"
            "\<not> (isalpha c \<and> islower c)"
        by argo
      then show ?thesis
      proof cases
        case b_cstart
        with "1.prems" Some other adv show ?thesis
          by (auto simp: unfold mk_token_def)
      next
        case b_cend
        with "1.prems" Some other adv show ?thesis
          by (auto simp: unfold mk_token_def)
      next
        case b_string
        with "1.prems" Some other show ?thesis
          by (auto simp: unfold mk_token_def split: sum.splits prod.splits dest: str)
      next
        case b_paren
        with "1.prems" Some other show ?thesis
          by (auto simp: unfold mk_token_def split: prod.splits if_splits dest: paren)
      next
        case b_single
        with "1.prems" Some other
        have "lx' = advance lx" and "ttype tok \<noteq> EOF"
          by (auto simp: unfold mk_token_def split: if_splits)
        with adv show ?thesis by simp
      next
        case b_digit
        with "1.prems" Some other obtain a where rn: "read_number lx = Inr (a, lx')"
          by (simp add: unfold split: sum.splits prod.splits if_splits)
        with num [OF rn] b_digit show ?thesis by simp
      next
        case b_name
        obtain a b where rn: "read_name lx = (a, b)" by (cases "read_name lx")
        with "1.prems" Some other b_name have "lx' = b"
          by (simp add: unfold split: if_splits)
        with name [OF rn] b_name show ?thesis by simp
      next
        case b_rest
        with "1.prems" Some other adv show ?thesis
          by (auto simp: unfold mk_token_def split: if_splits)
      qed
    qed
  qed
qed

text \<open>After the end of the text the lexer keeps returning \<^verbatim>\<open>EOF\<close>.\<close>

lemma get_next_token_at_end:
  "rest lx = [] \<Longrightarrow> get_next_token lx = Inr (mk_token EOF [] lx, lx)"
  by (simp add: get_next_token.simps [of lx] current_char_def)

section \<open>Python's built-in operations on the values\<close>

text \<open>
  \<^verbatim>\<open>int(s)\<close> and \<^verbatim>\<open>int(s, 16)\<close> on ASCII text: surrounding white space is dropped, one
  sign is allowed, then (base 16 only) the prefix \<^verbatim>\<open>0x\<close> or \<^verbatim>\<open>0X\<close>, then at least
  one digit, with single underscores allowed between digits and after the prefix.
  \<open>None\<close> stands for \<^verbatim>\<open>ValueError\<close>.
\<close>

definition digit_value :: "char \<Rightarrow> nat option" where
  "digit_value c =
     map_of (zip ''0123456789abcdefABCDEF''
       [0, 1, 2, 3, 4, 5, 6, 7, 8, 9, 10, 11, 12, 13, 14, 15, 10, 11, 12, 13, 14, 15]) c"

fun int_digits :: "nat \<Rightarrow> nat \<Rightarrow> string \<Rightarrow> nat option" where
  "int_digits b acc [] = Some acc"
| "int_digits b acc [c] =
     (case digit_value c of
        None \<Rightarrow> None
      | Some v \<Rightarrow> if v < b then Some (acc * b + v) else None)"
| "int_digits b acc (c # d # ds) =
     (if c = CHR ''_'' then
        (case digit_value d of
           None \<Rightarrow> None
         | Some v \<Rightarrow> if v < b then int_digits b (acc * b + v) ds else None)
      else
        (case digit_value c of
           None \<Rightarrow> None
         | Some v \<Rightarrow> if v < b then int_digits b (acc * b + v) (d # ds) else None))"

definition int_body :: "nat \<Rightarrow> string \<Rightarrow> nat option" where
  "int_body b s =
     (case s of
        [] \<Rightarrow> None
      | c # cs \<Rightarrow>
          (case digit_value c of
             None \<Rightarrow> None
           | Some v \<Rightarrow> if v < b then int_digits b v cs else None))"

definition strip :: "string \<Rightarrow> string" where
  "strip s = rev (dropWhile isspace (rev (dropWhile isspace s)))"

definition int_signed :: "(string \<Rightarrow> nat option) \<Rightarrow> string \<Rightarrow> int option" where
  "int_signed body s =
     (case strip s of
        [] \<Rightarrow> None
      | c # cs \<Rightarrow>
          if c = CHR ''-'' then map_option (\<lambda>n. - int n) (body cs)
          else if c = CHR ''+'' then map_option int (body cs)
          else map_option int (body (c # cs)))"

definition py_int :: "string \<Rightarrow> int option" where
  "py_int s = int_signed (int_body 10) s"

definition int16_body :: "string \<Rightarrow> nat option" where
  "int16_body s =
     (if take 2 s = ''0x'' \<or> take 2 s = ''0X'' then
        (case drop 2 s of
           [] \<Rightarrow> None
         | c # cs \<Rightarrow> if c = CHR ''_'' then int_body 16 cs else int_body 16 (c # cs))
      else int_body 16 s)"

definition py_int16 :: "string \<Rightarrow> int option" where
  "py_int16 s = int_signed int16_body s"

text \<open>\<^verbatim>\<open>str(n)\<close> of an integer: its decimal digits, with a minus sign when negative.\<close>

function str_nat :: "nat \<Rightarrow> string" where
  "str_nat n =
     (if n < 10 then [''0123456789'' ! n]
      else str_nat (n div 10) @ [''0123456789'' ! (n mod 10)])"
  by pat_completeness auto
termination
  by (relation "measure (\<lambda>n. n)") auto

declare str_nat.simps [simp del]

definition str_int :: "int \<Rightarrow> string" where
  "str_int i = (if i < 0 then CHR ''-'' # str_nat (nat (- i)) else str_nat (nat i))"

text \<open>
  \<^verbatim>\<open>repr\<close> of an ASCII string: single quotes, unless the string holds a single quote and
  no double quote; a backslash before the quote character and before a backslash; the
  usual escapes for tab, newline and carriage return, and \<^verbatim>\<open>\xNN\<close> for the other
  control characters.
\<close>

definition hex2 :: "nat \<Rightarrow> string" where
  "hex2 n = [''0123456789abcdef'' ! (n div 16), ''0123456789abcdef'' ! (n mod 16)]"

definition repr_char :: "char \<Rightarrow> char \<Rightarrow> string" where
  "repr_char q c =
     (if c = q \<or> c = CHR 0x5C then [CHR 0x5C, c]
      else if c = CHR 0x09 then [CHR 0x5C, CHR ''t'']
      else if c = CHR 0x0A then [CHR 0x5C, CHR ''n'']
      else if c = CHR 0x0D then [CHR 0x5C, CHR ''r'']
      else if of_char c < (32 :: nat) \<or> of_char c = (127 :: nat)
        then [CHR 0x5C, CHR ''x''] @ hex2 (of_char c)
      else [c])"

definition repr_str :: "string \<Rightarrow> string" where
  "repr_str s =
     (let q = (if CHR 0x27 \<in> set s \<and> CHR 0x22 \<notin> set s then CHR 0x22 else CHR 0x27)
      in [q] @ concat (map (repr_char q) s) @ [q])"

fun join :: "string \<Rightarrow> string list \<Rightarrow> string" where
  "join sep [] = []"
| "join sep [x] = x"
| "join sep (x # y # ys) = x @ sep @ join sep (y # ys)"

fun py_repr :: "pyvalue \<Rightarrow> string" where
  "py_repr (VInt i) = str_int i"
| "py_repr (VStr s) = repr_str s"
| "py_repr (VList vs) = ''['' @ join '', '' (map py_repr vs) @ '']''"

definition py_str :: "pyvalue \<Rightarrow> string" where
  "py_str v = (case v of VStr s \<Rightarrow> s | _ \<Rightarrow> py_repr v)"

text \<open>
  The operators \<^verbatim>\<open>+\<close>, \<^verbatim>\<open>-\<close>, \<^verbatim>\<open>*\<close>, \<^verbatim>\<open>//\<close> and \<^verbatim>\<open>abs\<close> as Python applies them to
  these three types: \<^verbatim>\<open>+\<close> also joins two strings or two lists, \<^verbatim>\<open>*\<close> also repeats a
  string or a list an integer number of times, and every other combination raises
  \<^verbatim>\<open>TypeError\<close>. \<^verbatim>\<open>//\<close> on integers is floor division and raises
  \<^verbatim>\<open>ZeroDivisionError\<close> on a zero divisor.
\<close>

fun py_add :: "pyvalue \<Rightarrow> pyvalue \<Rightarrow> error + pyvalue" where
  "py_add (VInt a) (VInt b) = Inr (VInt (a + b))"
| "py_add (VStr a) (VStr b) = Inr (VStr (a @ b))"
| "py_add (VList a) (VList b) = Inr (VList (a @ b))"
| "py_add _ _ = Inl TypeError"

fun py_sub :: "pyvalue \<Rightarrow> pyvalue \<Rightarrow> error + pyvalue" where
  "py_sub (VInt a) (VInt b) = Inr (VInt (a - b))"
| "py_sub _ _ = Inl TypeError"

fun py_mul :: "pyvalue \<Rightarrow> pyvalue \<Rightarrow> error + pyvalue" where
  "py_mul (VInt a) (VInt b) = Inr (VInt (a * b))"
| "py_mul (VStr s) (VInt n) = Inr (VStr (concat (replicate (nat n) s)))"
| "py_mul (VInt n) (VStr s) = Inr (VStr (concat (replicate (nat n) s)))"
| "py_mul (VList l) (VInt n) = Inr (VList (concat (replicate (nat n) l)))"
| "py_mul (VInt n) (VList l) = Inr (VList (concat (replicate (nat n) l)))"
| "py_mul _ _ = Inl TypeError"

fun py_floordiv :: "pyvalue \<Rightarrow> pyvalue \<Rightarrow> error + pyvalue" where
  "py_floordiv (VInt a) (VInt b) =
     (if b = 0 then Inl ZeroDivisionError else Inr (VInt (a div b)))"
| "py_floordiv _ _ = Inl TypeError"

fun py_abs :: "pyvalue \<Rightarrow> error + pyvalue" where
  "py_abs (VInt a) = Inr (VInt \<bar>a\<bar>)"
| "py_abs _ = Inl TypeError"

fun isinstance_str :: "pyvalue \<Rightarrow> bool" where
  "isinstance_str (VStr _) = True"
| "isinstance_str _ = False"

fun isinstance_int :: "pyvalue \<Rightarrow> bool" where
  "isinstance_int (VInt _) = True"
| "isinstance_int _ = False"


section \<open>The parser\<close>

text \<open>
  \<^verbatim>\<open>class Parser\<close>: the lexer, the current token (one token of lookahead) and the
  dictionary of constants. A Python dictionary keeps its keys in the order of their first
  insertion, and an assignment to a key already present replaces the value where it
  stands: an association list with \<open>map_of\<close> and \<open>AList.update\<close>. A stack of the
  expression evaluators is a Python list: a push appends at the end and a pop takes the
  last element.
\<close>

record Parser =
  lexer :: Lexer
  current_token :: Token
  constants :: "(string \<times> pyvalue) list"

definition new_Parser :: "Lexer \<Rightarrow> error + Parser" where
  "new_Parser lx =
     (case get_next_token lx of
        Inl e \<Rightarrow> Inl e
      | Inr (tok, lx') \<Rightarrow> Inr \<lparr>lexer = lx', current_token = tok, constants = []\<rparr>)"

definition parser_error :: "Parser \<Rightarrow> message \<Rightarrow> error" where
  "parser_error p m = SyntaxError m (tline (current_token p)) (tcol (current_token p))"

definition eat :: "TokenType \<Rightarrow> Parser \<Rightarrow> error + Parser" where
  "eat token_type p =
     (if ttype (current_token p) = token_type then
        (case get_next_token (lexer p) of
           Inl e \<Rightarrow> Inl e
         | Inr (tok, lx') \<Rightarrow> Inr (p\<lparr>lexer := lx', current_token := tok\<rparr>))
      else Inl (parser_error p (Expected_got token_type (ttype (current_token p)))))"

text \<open>
  The branch for an operator of \<^verbatim>\<open>parse_const_expression\<close>, once the operator token is
  eaten: \<open>p\<close> is the parser after \<^verbatim>\<open>eat\<close>, whose current token gives the position of
  an error.
\<close>

definition apply_operator :: "Parser \<Rightarrow> string \<Rightarrow> pyvalue list \<Rightarrow> error + pyvalue list" where
  "apply_operator p op stack =
     (if length stack < 2 then Inl (parser_error p (Not_enough_operands op))
      else
        let b = last stack; a = last (butlast stack); stack' = butlast (butlast stack) in
        if op = ''+'' then
          (case py_add a b of Inl e \<Rightarrow> Inl e | Inr r \<Rightarrow> Inr (stack' @ [r]))
        else if op = ''-'' then
          (case py_sub a b of Inl e \<Rightarrow> Inl e | Inr r \<Rightarrow> Inr (stack' @ [r]))
        else if op = ''*'' then
          (case py_mul a b of Inl e \<Rightarrow> Inl e | Inr r \<Rightarrow> Inr (stack' @ [r]))
        else if op = ''/'' then
          (if b = VInt 0 then Inl (parser_error p Division_by_zero)
           else (case py_floordiv a b of Inl e \<Rightarrow> Inl e | Inr r \<Rightarrow> Inr (stack' @ [r])))
        else Inl (parser_error p (Unknown_operator op)))"

text \<open>The same branch of \<^verbatim>\<open>parse_const_expression_body\<close>.\<close>

definition apply_operator_body :: "Parser \<Rightarrow> string \<Rightarrow> pyvalue list \<Rightarrow> error + pyvalue list" where
  "apply_operator_body p op stack =
     (if length stack < 2 then Inl (parser_error p (Not_enough_operands op))
      else
        let b = last stack; a = last (butlast stack); stack' = butlast (butlast stack) in
        if op = ''+'' then
          (if isinstance_str a \<or> isinstance_str b then Inr (stack' @ [VStr (py_str a @ py_str b)])
           else (case py_add a b of Inl e \<Rightarrow> Inl e | Inr r \<Rightarrow> Inr (stack' @ [r])))
        else if op = ''-'' then
          (case py_sub a b of Inl e \<Rightarrow> Inl e | Inr r \<Rightarrow> Inr (stack' @ [r]))
        else if op = ''*'' then
          (case py_mul a b of Inl e \<Rightarrow> Inl e | Inr r \<Rightarrow> Inr (stack' @ [r]))
        else if op = ''/'' then
          (if b = VInt 0 then Inl (parser_error p Division_by_zero)
           else (case py_floordiv a b of Inl e \<Rightarrow> Inl e | Inr r \<Rightarrow> Inr (stack' @ [r])))
        else Inl (parser_error p (Unknown_operator op)))"

text \<open>The branch for a function token, in \<^verbatim>\<open>parse_const_expression\<close> and in the body.\<close>

definition apply_function :: "Parser \<Rightarrow> string \<Rightarrow> pyvalue list \<Rightarrow> error + pyvalue list" where
  "apply_function p func stack =
     (if func = ''abs'' then
        (if length stack < 1 then Inl (parser_error p (Not_enough_arguments func))
         else
           (case py_abs (last stack) of
              Inl e \<Rightarrow> Inl e
            | Inr r \<Rightarrow> Inr (butlast stack @ [r])))
      else Inl (parser_error p (Unknown_function func)))"

definition apply_function_body :: "Parser \<Rightarrow> string \<Rightarrow> pyvalue list \<Rightarrow> error + pyvalue list" where
  "apply_function_body p func stack =
     (if func = ''abs'' then
        (if length stack < 1 then Inl (parser_error p (Not_enough_arguments func))
         else
           let arg = last stack in
           if isinstance_int arg then
             (case py_abs arg of
                Inl e \<Rightarrow> Inl e
              | Inr r \<Rightarrow> Inr (butlast stack @ [r]))
           else Inl (parser_error p (Expects_numeric_argument func)))
      else Inl (parser_error p (Unknown_function func)))"

text \<open>
  One round of the \<^verbatim>\<open>while\<close> loop of \<^verbatim>\<open>parse_const_expression\<close>: the current token
  is eaten and the stack changed, or the round leaves by an error.
\<close>

definition const_expression_step :: "pyvalue list \<Rightarrow> Parser \<Rightarrow> error + (pyvalue list \<times> Parser)" where
  "const_expression_step stack p =
     (let token = current_token p in
      if ttype token = NUMBER then
        (case eat NUMBER p of
           Inl e \<Rightarrow> Inl e
         | Inr p' \<Rightarrow>
             (case py_int (tvalue token) of
                None \<Rightarrow> Inl ValueError
              | Some n \<Rightarrow> Inr (stack @ [VInt n], p')))
      else if ttype token = HEX_NUMBER then
        (case eat HEX_NUMBER p of
           Inl e \<Rightarrow> Inl e
         | Inr p' \<Rightarrow>
             (case py_int16 (tvalue token) of
                None \<Rightarrow> Inl ValueError
              | Some n \<Rightarrow> Inr (stack @ [VInt n], p')))
      else if ttype token = NAME then
        (case eat NAME p of
           Inl e \<Rightarrow> Inl e
         | Inr p' \<Rightarrow>
             (case map_of (constants p') (tvalue token) of
                Some v \<Rightarrow> Inr (stack @ [v], p')
              | None \<Rightarrow>
                  (case py_int (tvalue token) of
                     Some n \<Rightarrow> Inr (stack @ [VInt n], p')
                   | None \<Rightarrow> Inl (parser_error p' (Unknown_constant (tvalue token))))))
      else if ttype token = OPERATOR then
        (case eat OPERATOR p of
           Inl e \<Rightarrow> Inl e
         | Inr p' \<Rightarrow>
             (case apply_operator p' (tvalue token) stack of
                Inl e \<Rightarrow> Inl e
              | Inr stack' \<Rightarrow> Inr (stack', p')))
      else if ttype token = FUNCTION then
        (case eat FUNCTION p of
           Inl e \<Rightarrow> Inl e
         | Inr p' \<Rightarrow>
             (case apply_function p' (tvalue token) stack of
                Inl e \<Rightarrow> Inl e
              | Inr stack' \<Rightarrow> Inr (stack', p')))
      else Inl (parser_error p (Unexpected_token_in_constant_expression (ttype token))))"

text \<open>One round of the \<^verbatim>\<open>while\<close> loop of \<^verbatim>\<open>parse_const_expression_body\<close>.\<close>

definition const_expression_body_step :: "pyvalue list \<Rightarrow> Parser \<Rightarrow> error + (pyvalue list \<times> Parser)" where
  "const_expression_body_step stack p =
     (let token = current_token p in
      if ttype token = NUMBER then
        (case eat NUMBER p of
           Inl e \<Rightarrow> Inl e
         | Inr p' \<Rightarrow>
             (case py_int (tvalue token) of
                None \<Rightarrow> Inl ValueError
              | Some n \<Rightarrow> Inr (stack @ [VInt n], p')))
      else if ttype token = HEX_NUMBER then
        (case eat HEX_NUMBER p of
           Inl e \<Rightarrow> Inl e
         | Inr p' \<Rightarrow>
             (case py_int16 (tvalue token) of
                None \<Rightarrow> Inl ValueError
              | Some n \<Rightarrow> Inr (stack @ [VInt n], p')))
      else if ttype token = NAME then
        (case eat NAME p of
           Inl e \<Rightarrow> Inl e
         | Inr p' \<Rightarrow>
             (case map_of (constants p') (tvalue token) of
                Some v \<Rightarrow> Inr (stack @ [v], p')
              | None \<Rightarrow> Inr (stack @ [VStr (tvalue token)], p')))
      else if ttype token = OPERATOR then
        (case eat OPERATOR p of
           Inl e \<Rightarrow> Inl e
         | Inr p' \<Rightarrow>
             (case apply_operator_body p' (tvalue token) stack of
                Inl e \<Rightarrow> Inl e
              | Inr stack' \<Rightarrow> Inr (stack', p')))
      else if ttype token = FUNCTION then
        (case eat FUNCTION p of
           Inl e \<Rightarrow> Inl e
         | Inr p' \<Rightarrow>
             (case apply_function_body p' (tvalue token) stack of
                Inl e \<Rightarrow> Inl e
              | Inr stack' \<Rightarrow> Inr (stack', p')))
      else Inl (parser_error p (Unexpected_token_in_constant_expression (ttype token))))"

text \<open>
  The measure of the parser's loops: the characters not yet read, and one more while
  the current token is not \<^verbatim>\<open>EOF\<close>. Eating a token other than \<^verbatim>\<open>EOF\<close> lowers it.
\<close>

definition unread :: "Parser \<Rightarrow> nat" where
  "unread p = length (rest (lexer p)) + (if ttype (current_token p) = EOF then 0 else 1)"

lemma eat_unread:
  "eat ty p = Inr p' \<Longrightarrow> ty \<noteq> EOF \<Longrightarrow> unread p' < unread p"
  by (auto simp: eat_def unread_def split: if_splits sum.splits dest: get_next_token_rest)

lemma eat_unread_le: "eat ty p = Inr p' \<Longrightarrow> unread p' \<le> unread p"
  by (auto simp: eat_def unread_def split: if_splits sum.splits dest: get_next_token_rest)

lemma const_expression_step_unread:
  "const_expression_step stack p = Inr (stack', p') \<Longrightarrow> unread p' < unread p"
  by (auto simp: const_expression_step_def Let_def split: if_splits sum.splits option.splits
      dest: eat_unread)

lemma const_expression_body_step_unread:
  "const_expression_body_step stack p = Inr (stack', p') \<Longrightarrow> unread p' < unread p"
  by (auto simp: const_expression_body_step_def Let_def split: if_splits sum.splits option.splits
      dest: eat_unread)

function parse_const_expression_loop :: "pyvalue list \<Rightarrow> Parser \<Rightarrow> error + (pyvalue list \<times> Parser)" where
  "parse_const_expression_loop stack p =
     (if ttype (current_token p) \<noteq> CONST_EXPR_END then
        (case const_expression_step stack p of
           Inl e \<Rightarrow> Inl e
         | Inr (stack', p') \<Rightarrow> parse_const_expression_loop stack' p')
      else Inr (stack, p))"
  by pat_completeness auto
termination
  by (relation "measure (\<lambda>(stack, p). unread p)")
     (auto dest: const_expression_step_unread)

declare parse_const_expression_loop.simps [simp del]

definition parse_const_expression :: "string option \<Rightarrow> Parser \<Rightarrow> error + (pyvalue \<times> Parser)" where
  "parse_const_expression first_arg p =
     (case eat CONST_EXPR_START p of
        Inl e \<Rightarrow> Inl e
      | Inr p1 \<Rightarrow>
          (case (case first_arg of
                   Some arg \<Rightarrow>
                     (case map_of (constants p1) arg of
                        Some v \<Rightarrow> Inr [v]
                      | None \<Rightarrow>
                          (case py_int arg of
                             Some n \<Rightarrow> Inr [VInt n]
                           | None \<Rightarrow>
                               Inl (parser_error p1 (Invalid_constant_expression_argument arg))))
                 | None \<Rightarrow> Inr [])
           of
             Inl e \<Rightarrow> Inl e
           | Inr stack \<Rightarrow>
               (case parse_const_expression_loop stack p1 of
                  Inl e \<Rightarrow> Inl e
                | Inr (stack', p2) \<Rightarrow>
                    (case eat CONST_EXPR_END p2 of
                       Inl e \<Rightarrow> Inl e
                     | Inr p3 \<Rightarrow>
                         if length stack' \<noteq> 1
                         then Inl (parser_error p3 Invalid_constant_expression)
                         else Inr (stack' ! 0, p3)))))"

function parse_const_expression_body_loop :: "pyvalue list \<Rightarrow> Parser \<Rightarrow> error + (pyvalue list \<times> Parser)" where
  "parse_const_expression_body_loop stack p =
     (if ttype (current_token p) \<notin> set [CONST_EXPR_END, EOF] then
        (case const_expression_body_step stack p of
           Inl e \<Rightarrow> Inl e
         | Inr (stack', p') \<Rightarrow> parse_const_expression_body_loop stack' p')
      else Inr (stack, p))"
  by pat_completeness auto
termination
  by (relation "measure (\<lambda>(stack, p). unread p)")
     (auto dest: const_expression_body_step_unread)

declare parse_const_expression_body_loop.simps [simp del]

definition parse_const_expression_body :: "Parser \<Rightarrow> error + (pyvalue \<times> Parser)" where
  "parse_const_expression_body p =
     (case parse_const_expression_body_loop [] p of
        Inl e \<Rightarrow> Inl e
      | Inr (stack, p') \<Rightarrow>
          if length stack \<noteq> 1 then Inl (parser_error p' Invalid_constant_expression)
          else Inr (stack ! 0, p'))"

lemma parse_const_expression_loop_unread:
  "parse_const_expression_loop stack p = Inr (stack', p') \<Longrightarrow> unread p' \<le> unread p"
proof (induction stack p rule: parse_const_expression_loop.induct)
  case (1 stack p)
  note unfold = parse_const_expression_loop.simps [of stack p]
  show ?case
  proof (cases "ttype (current_token p) \<noteq> CONST_EXPR_END")
    case True
    with "1.prems" obtain s1 p1 where
      st: "const_expression_step stack p = Inr (s1, p1)"
      and lp: "parse_const_expression_loop s1 p1 = Inr (stack', p')"
      by (auto simp: unfold split: sum.splits)
    from "1.IH" [OF True st refl lp] const_expression_step_unread [OF st]
    show ?thesis by simp
  next
    case False
    with "1.prems" show ?thesis by (simp add: unfold)
  qed
qed

lemma parse_const_expression_body_loop_unread:
  "parse_const_expression_body_loop stack p = Inr (stack', p') \<Longrightarrow> unread p' \<le> unread p"
proof (induction stack p rule: parse_const_expression_body_loop.induct)
  case (1 stack p)
  note unfold = parse_const_expression_body_loop.simps [of stack p]
  show ?case
  proof (cases "ttype (current_token p) \<notin> set [CONST_EXPR_END, EOF]")
    case True
    with "1.prems" obtain s1 p1 where
      st: "const_expression_body_step stack p = Inr (s1, p1)"
      and lp: "parse_const_expression_body_loop s1 p1 = Inr (stack', p')"
      by (auto simp: unfold split: sum.splits)
    from "1.IH" [OF True st refl lp] const_expression_body_step_unread [OF st]
    show ?thesis by simp
  next
    case False
    with "1.prems" show ?thesis by (auto simp: unfold)
  qed
qed

lemma parse_const_expression_unread:
  "parse_const_expression first_arg p = Inr (v, p') \<Longrightarrow> unread p' < unread p"
  by (auto simp: parse_const_expression_def split: sum.splits if_splits
      dest!: eat_unread parse_const_expression_loop_unread)

lemma parse_const_expression_body_unread:
  "parse_const_expression_body p = Inr (v, p') \<Longrightarrow> unread p' \<le> unread p"
  by (auto simp: parse_const_expression_body_def split: sum.splits if_splits
      dest!: parse_const_expression_body_loop_unread)

text \<open>
  \<^verbatim>\<open>parse_value\<close> and \<^verbatim>\<open>parse_array\<close> call each other; \<open>parse_array_loop\<close> is the
  \<^verbatim>\<open>while\<close> loop of \<^verbatim>\<open>parse_array\<close> over the elements after the first, with the list
  \<^verbatim>\<open>values\<close> built so far.
\<close>

function parse_value :: "Parser \<Rightarrow> error + (pyvalue \<times> Parser)"
  and parse_array :: "Parser \<Rightarrow> error + (pyvalue list \<times> Parser)"
  and parse_array_loop :: "pyvalue list \<Rightarrow> Parser \<Rightarrow> error + (pyvalue list \<times> Parser)"
where
  "parse_value p =
     (let token = current_token p in
      if ttype token = NUMBER then
        (case eat NUMBER p of
           Inl e \<Rightarrow> Inl e
         | Inr p' \<Rightarrow>
             (case py_int (tvalue token) of
                None \<Rightarrow> Inl ValueError
              | Some n \<Rightarrow> Inr (VInt n, p')))
      else if ttype token = HEX_NUMBER then
        (case eat HEX_NUMBER p of
           Inl e \<Rightarrow> Inl e
         | Inr p' \<Rightarrow>
             (case py_int16 (tvalue token) of
                None \<Rightarrow> Inl ValueError
              | Some n \<Rightarrow> Inr (VInt n, p')))
      else if ttype token = STRING then
        (case eat STRING p of
           Inl e \<Rightarrow> Inl e
         | Inr p' \<Rightarrow> Inr (VStr (tvalue token), p'))
      else if ttype token = ARRAY_START then
        (case parse_array p of
           Inl e \<Rightarrow> Inl e
         | Inr (values, p') \<Rightarrow> Inr (VList values, p'))
      else if ttype token = NAME then
        (case eat NAME p of
           Inl e \<Rightarrow> Inl e
         | Inr p' \<Rightarrow>
             if ttype (current_token p') = CONST_EXPR_START
             then parse_const_expression (Some (tvalue token)) p'
             else
               (case map_of (constants p') (tvalue token) of
                  Some v \<Rightarrow> Inr (v, p')
                | None \<Rightarrow> Inr (VStr (tvalue token), p')))
      else if ttype token = CONST_EXPR_START then
        (case eat CONST_EXPR_START p of
           Inl e \<Rightarrow> Inl e
         | Inr p1 \<Rightarrow>
             (case parse_const_expression_body p1 of
                Inl e \<Rightarrow> Inl e
              | Inr (result, p2) \<Rightarrow>
                  (case eat CONST_EXPR_END p2 of
                     Inl e \<Rightarrow> Inl e
                   | Inr p3 \<Rightarrow> Inr (result, p3))))
      else Inl (parser_error p (Unexpected_token_in_value (ttype token))))"
| "parse_array p =
     (case eat ARRAY_START p of
        Inl e \<Rightarrow> Inl e
      | Inr p1 \<Rightarrow>
          (case (if ttype (current_token p1) \<noteq> ARRAY_END then
                   (case parse_value p1 of
                      Inl e \<Rightarrow> Inl e
                    | Inr (v, p2) \<Rightarrow> parse_array_loop [v] p2)
                 else Inr ([], p1))
           of
             Inl e \<Rightarrow> Inl e
           | Inr (values, p3) \<Rightarrow>
               (case eat ARRAY_END p3 of
                  Inl e \<Rightarrow> Inl e
                | Inr p4 \<Rightarrow> Inr (values, p4))))"
| "parse_array_loop values p =
     (if ttype (current_token p) = COMMA then
        (case eat COMMA p of
           Inl e \<Rightarrow> Inl e
         | Inr p1 \<Rightarrow>
             (case parse_value p1 of
                Inl e \<Rightarrow> Inl e
              | Inr (v, p2) \<Rightarrow> parse_array_loop (values @ [v]) p2))
      else Inr (values, p))"
  by pat_completeness auto


lemma eat_unread_both:
  "eat ty p = Inr p' \<Longrightarrow> unread p' \<le> unread p \<and> (ty \<noteq> EOF \<longrightarrow> unread p' < unread p)"
  using eat_unread eat_unread_le by blast

lemma parse_value_array_unread_dom:
  "parse_value_parse_array_parse_array_loop_dom (Inl p)
     \<Longrightarrow> (\<forall>v p'. parse_value p = Inr (v, p') \<longrightarrow> unread p' < unread p)"
  "parse_value_parse_array_parse_array_loop_dom (Inr (Inl q))
     \<Longrightarrow> (\<forall>vs p'. parse_array q = Inr (vs, p') \<longrightarrow> unread p' < unread q)"
  "parse_value_parse_array_parse_array_loop_dom (Inr (Inr (acc, r)))
     \<Longrightarrow> (\<forall>vs p'. parse_array_loop acc r = Inr (vs, p') \<longrightarrow> unread p' \<le> unread r)"
proof (induction p and q and acc r rule: parse_value_parse_array_parse_array_loop.pinduct)
  case (1 p)
  show ?case
  proof (intro allI impI)
    fix v p'
    assume res: "parse_value p = Inr (v, p')"
    note unfold = parse_value.psimps [OF "1.hyps"]
    show "unread p' < unread p"
    proof (cases "ttype (current_token p) = ARRAY_START")
      case True
      with res obtain vs where "parse_array p = Inr (vs, p')"
        by (auto simp: unfold Let_def split: sum.splits)
      with "1.IH" [OF refl _ _ _ True] True show ?thesis by simp
    next
      case False
      with res show ?thesis
        by (auto simp: unfold Let_def split: if_splits sum.splits option.splits
            dest!: eat_unread_both parse_const_expression_unread
                   parse_const_expression_body_unread)
    qed
  qed
next
  case (2 p)
  show ?case
  proof (intro allI impI)
    fix vs p'
    assume res: "parse_array p = Inr (vs, p')"
    note unfold = parse_array.psimps [OF "2.hyps"]
    from res obtain p1 where e1: "eat ARRAY_START p = Inr p1"
      by (cases "eat ARRAY_START p") (auto simp: unfold)
    let ?mid = "if ttype (current_token p1) \<noteq> ARRAY_END then
                   (case parse_value p1 of
                      Inl e \<Rightarrow> Inl e
                    | Inr (v, p2) \<Rightarrow> parse_array_loop [v] p2)
                 else Inr ([], p1)"
    from res e1 obtain vs3 p3 where mid3: "?mid = Inr (vs3, p3)"
      by (cases ?mid) (auto simp: unfold)
    from res e1 mid3 have e2: "eat ARRAY_END p3 = Inr p'" and "vs3 = vs"
      by (auto simp: unfold split: sum.splits)
    with mid3 have mid: "?mid = Inr (vs, p3)" by simp
    have "unread p3 \<le> unread p1"
    proof (cases "ttype (current_token p1) \<noteq> ARRAY_END")
      case True
      with mid obtain v p2 where
        pv: "parse_value p1 = Inr (v, p2)" and lp: "parse_array_loop [v] p2 = Inr (vs, p3)"
        by (auto split: sum.splits)
      from "2.IH"(1) [OF e1 True] pv have "unread p2 < unread p1" by simp
      moreover from "2.IH"(2) [OF e1 True pv refl] lp have "unread p3 \<le> unread p2" by simp
      ultimately show ?thesis by simp
    next
      case False
      with mid show ?thesis by simp
    qed
    with eat_unread [OF e1] eat_unread_le [OF e2] show "unread p' < unread p" by simp
  qed
next
  case (3 acc p)
  show ?case
  proof (intro allI impI)
    fix vs p'
    assume res: "parse_array_loop acc p = Inr (vs, p')"
    note unfold = parse_array_loop.psimps [OF "3.hyps"]
    show "unread p' \<le> unread p"
    proof (cases "ttype (current_token p) = COMMA")
      case True
      with res obtain p1 v p2 where
        e1: "eat COMMA p = Inr p1" and pv: "parse_value p1 = Inr (v, p2)"
        and lp: "parse_array_loop (acc @ [v]) p2 = Inr (vs, p')"
        by (auto simp: unfold split: sum.splits)
      from "3.IH"(1) [OF True e1] pv have "unread p2 < unread p1" by simp
      moreover from "3.IH"(2) [OF True e1 pv refl] lp have "unread p' \<le> unread p2" by simp
      ultimately show ?thesis using eat_unread [OF e1] by simp
    next
      case False
      with res show ?thesis by (simp add: unfold)
    qed
  qed
qed

lemma parse_value_total: "All parse_value_parse_array_parse_array_loop_dom"
proof (relation "measure (case_sum (\<lambda>p. 2 * unread p + 1)
                  (case_sum (\<lambda>p. 2 * unread p) (\<lambda>(vs, p). 2 * unread p + 1)))")
  show "wf (measure (case_sum (\<lambda>p. 2 * unread p + 1)
                  (case_sum (\<lambda>p. 2 * unread p) (\<lambda>(vs, p). 2 * unread p + 1))))"
    by simp
qed (auto dest!: eat_unread parse_value_array_unread_dom(1))

termination parse_value
  by (rule parse_value_total)

declare parse_value.simps [simp del] parse_array.simps [simp del] parse_array_loop.simps [simp del]

lemma parse_value_unread: "parse_value p = Inr (v, p') \<Longrightarrow> unread p' < unread p"
  using parse_value_array_unread_dom(1) [of p] parse_value_total by blast

text \<open>
  \<^verbatim>\<open>parse_define\<close>, and one round of the loop of \<^verbatim>\<open>parse_config\<close>, whose result
  dictionary \<^verbatim>\<open>config\<close> is an association list as well.
\<close>

definition parse_define :: "Parser \<Rightarrow> error + Parser" where
  "parse_define p =
     (case eat DEFINE p of
        Inl e \<Rightarrow> Inl e
      | Inr p1 \<Rightarrow>
          if ttype (current_token p1) \<noteq> NAME
          then Inl (parser_error p1 Expected_name_after_define)
          else
            let name = tvalue (current_token p1) in
            (case eat NAME p1 of
               Inl e \<Rightarrow> Inl e
             | Inr p2 \<Rightarrow>
                 (case parse_value p2 of
                    Inl e \<Rightarrow> Inl e
                  | Inr (v, p3) \<Rightarrow> Inr (p3\<lparr>constants := AList.update name v (constants p3)\<rparr>))))"

type_synonym config = "(string \<times> pyvalue) list"

definition config_step :: "config \<Rightarrow> Parser \<Rightarrow> error + (config \<times> Parser)" where
  "config_step config p =
     (if ttype (current_token p) = DEFINE then
        (case parse_define p of
           Inl e \<Rightarrow> Inl e
         | Inr p' \<Rightarrow> Inr (config, p'))
      else if ttype (current_token p) = NAME then
        let key = tvalue (current_token p) in
        (case eat NAME p of
           Inl e \<Rightarrow> Inl e
         | Inr p1 \<Rightarrow>
             (case (if ttype (current_token p1) = CONST_EXPR_START
                    then parse_const_expression None p1
                    else parse_value p1)
              of
                Inl e \<Rightarrow> Inl e
              | Inr (v, p2) \<Rightarrow> Inr (AList.update key v config, p2)))
      else Inl (parser_error p (Unexpected_token (ttype (current_token p)))))"

lemma unread_constants: "unread (p\<lparr>constants := c\<rparr>) = unread p"
  by (simp add: unread_def)

lemma parse_define_unread:
  assumes "parse_define p = Inr p'"
  shows "unread p' < unread p"
proof -
  from assms obtain p1 where e1: "eat DEFINE p = Inr p1"
    by (cases "eat DEFINE p") (auto simp: parse_define_def)
  from assms e1 have nm: "ttype (current_token p1) = NAME"
    by (auto simp: parse_define_def split: if_splits)
  from assms e1 nm obtain p2 where e2: "eat NAME p1 = Inr p2"
    by (cases "eat NAME p1") (auto simp: parse_define_def Let_def)
  from assms e1 nm e2 obtain v p3 where
    pv: "parse_value p2 = Inr (v, p3)"
    and p': "p' = p3\<lparr>constants := AList.update (tvalue (current_token p1)) v (constants p3)\<rparr>"
    by (cases "parse_value p2") (auto simp: parse_define_def Let_def)
  from eat_unread [OF e1] eat_unread_le [OF e2] parse_value_unread [OF pv] p'
  show ?thesis by (simp add: unread_constants)
qed

lemma config_step_unread:
  assumes "config_step config p = Inr (config', p')"
  shows "unread p' < unread p"
proof (cases "ttype (current_token p) = DEFINE")
  case True
  with assms have "parse_define p = Inr p'"
    by (auto simp: config_step_def split: sum.splits)
  then show ?thesis by (rule parse_define_unread)
next
  case False
  with assms have nm: "ttype (current_token p) = NAME"
    by (auto simp: config_step_def split: if_splits)
  from assms False nm obtain p1 where e1: "eat NAME p = Inr p1"
    by (cases "eat NAME p") (auto simp: config_step_def Let_def)
  show ?thesis
  proof (cases "ttype (current_token p1) = CONST_EXPR_START")
    case True
    with assms False nm e1 obtain v where "parse_const_expression None p1 = Inr (v, p')"
      by (cases "parse_const_expression None p1") (auto simp: config_step_def Let_def)
    from parse_const_expression_unread [OF this] eat_unread_le [OF e1] show ?thesis by simp
  next
    case F2: False
    with assms False nm e1 obtain v where "parse_value p1 = Inr (v, p')"
      by (cases "parse_value p1") (auto simp: config_step_def Let_def)
    from parse_value_unread [OF this] eat_unread_le [OF e1] show ?thesis by simp
  qed
qed

function parse_config_loop :: "config \<Rightarrow> Parser \<Rightarrow> error + (config \<times> Parser)" where
  "parse_config_loop config p =
     (if ttype (current_token p) \<noteq> EOF then
        (case config_step config p of
           Inl e \<Rightarrow> Inl e
         | Inr (config', p') \<Rightarrow> parse_config_loop config' p')
      else Inr (config, p))"
  by pat_completeness auto
termination
  by (relation "measure (\<lambda>(config, p). unread p)") (auto dest: config_step_unread)

declare parse_config_loop.simps [simp del]

definition parse_config :: "Parser \<Rightarrow> error + config" where
  "parse_config p =
     (case parse_config_loop [] p of
        Inl e \<Rightarrow> Inl e
      | Inr (config, p') \<Rightarrow> Inr config)"

text \<open>
  The core run of \<^verbatim>\<open>convert_to_json\<close>: a lexer on the text, a parser on the lexer (which
  reads the first token), and \<^verbatim>\<open>parse_config\<close>; the result is the dictionary or the
  exception that ended the run.
\<close>

definition translate :: "string \<Rightarrow> error + config" where
  "translate input_text =
     (case new_Parser (new_Lexer input_text) of
        Inl e \<Rightarrow> Inl e
      | Inr parser \<Rightarrow> parse_config parser)"

text \<open>
  \<^verbatim>\<open>convert_to_json\<close> itself builds the lexer and the parser outside its \<^verbatim>\<open>try\<close> block,
  so an exception of the first token leaves the function as it is, and turns every
  exception of \<^verbatim>\<open>parse_config\<close> into \<^verbatim>\<open>sys.exit(1)\<close>.
\<close>

datatype outcome = Returned config | Raised error | SystemExit nat

definition convert_to_json :: "string \<Rightarrow> outcome" where
  "convert_to_json input_text =
     (case new_Parser (new_Lexer input_text) of
        Inl e \<Rightarrow> Raised e
      | Inr parser \<Rightarrow>
          (case parse_config parser of
             Inl e \<Rightarrow> SystemExit 1
           | Inr config \<Rightarrow> Returned config))"

section \<open>Facts about the parser shared by the claims\<close>

lemma eat_constants: "eat ty p = Inr p' \<Longrightarrow> constants p' = constants p"
  by (auto simp: eat_def split: if_splits sum.splits)

lemma apply_operator_div:
  "apply_operator p ''/'' (st @ [VInt a, VInt b])
     = (if b = 0 then Inl (parser_error p Division_by_zero) else Inr (st @ [VInt (a div b)]))"
  by (simp add: apply_operator_def butlast_append)

lemma apply_operator_body_div:
  "apply_operator_body p ''/'' (st @ [VInt a, VInt b])
     = (if b = 0 then Inl (parser_error p Division_by_zero) else Inr (st @ [VInt (a div b)]))"
  by (simp add: apply_operator_body_def butlast_append)



























text \<open>
  Where a token starts: at the end of the text, or at a character that is neither white
  space nor the start of a comment. Every token that \<open>get_next_token\<close> returns is the
  one it returns from such a position.
\<close>

definition token_start :: "Lexer \<Rightarrow> bool" where
  "token_start lx \<longleftrightarrow>
     (case current_char lx of
        None \<Rightarrow> True
      | Some c \<Rightarrow> \<not> isspace c \<and> c \<noteq> CHR ''%'' \<and> \<not> (c = CHR ''<'' \<and> peek lx = Some CHR ''#''))"

lemma get_next_token_start:
  "get_next_token lx = Inr (tok, lx')
   \<Longrightarrow> \<exists>lx0. token_start lx0 \<and> get_next_token lx0 = Inr (tok, lx')"
proof (induction lx rule: get_next_token.induct)
  case (1 lx)
  note unfold = get_next_token.simps [of lx]
  show ?case
  proof (cases "current_char lx")
    case None
    then have "token_start lx" by (simp add: token_start_def)
    with "1.prems" show ?thesis by blast
  next
    case (Some c)
    consider (ws) "isspace c"
      | (pct) "\<not> isspace c" "c = CHR ''%''"
      | (multi) "\<not> isspace c" "c \<noteq> CHR ''%''" "c = CHR ''<'' \<and> peek lx = Some CHR ''#''"
      | (other) "\<not> isspace c" "c \<noteq> CHR ''%''" "\<not> (c = CHR ''<'' \<and> peek lx = Some CHR ''#'')"
      by blast
    then show ?thesis
    proof cases
      case ws
      with Some "1.prems" have eq: "get_next_token (skip_whitespace lx) = Inr (tok, lx')"
        by (simp add: unfold)
      from "1.IH"(1) [OF Some ws eq] show ?thesis .
    next
      case pct
      with Some "1.prems"
      have eq: "get_next_token (skip_single_comment (advance lx)) = Inr (tok, lx')"
        by (simp add: unfold)
      from "1.IH"(2) [OF Some pct eq] show ?thesis .
    next
      case multi
      with Some "1.prems" obtain lx1 where
        m: "skip_multi_comment lx = Inr lx1" and eq: "get_next_token lx1 = Inr (tok, lx')"
        by (auto simp: unfold split: sum.splits)
      from "1.IH"(3) [OF Some multi(1,2,3) m eq] show ?thesis .
    next
      case other
      with Some have "token_start lx" by (simp add: token_start_def)
      with "1.prems" show ?thesis by blast
    qed
  qed
qed

lemma get_next_token_at_start:
  assumes "token_start lx" and "get_next_token lx = Inr (tok, lx')"
  shows "(current_char lx = None \<and> ttype tok = EOF \<and> lx' = lx)
       \<or> (\<exists>c. current_char lx = Some c \<and> ttype tok \<noteq> EOF
              \<and> (ttype tok = NAME \<longrightarrow> tvalue tok \<noteq> ''abs'' \<and> islower c)
              \<and> (ttype tok = ARRAY_START \<longrightarrow> c = CHR ''['')
              \<and> (ttype tok = ARRAY_END \<longrightarrow> c = CHR '']''))"
proof (cases "current_char lx")
  case None
  with assms(2) show ?thesis
    by (auto simp: get_next_token.simps [of lx] mk_token_def)
next
  case (Some c)
  note unfold = get_next_token.simps [of lx]
  from assms(1) Some have other: "\<not> isspace c" "c \<noteq> CHR ''%''"
    "\<not> (c = CHR ''<'' \<and> peek lx = Some CHR ''#'')"
    by (simp_all add: token_start_def)
  let ?ce = "c = CHR ''.'' \<and> peek lx = Some CHR ''{''"
  let ?cx = "c = CHR ''}'' \<and> peek lx = Some CHR ''.''"
  let ?cs = "c = CHR ''@'' \<and> peek lx = Some CHR 0x22"
  consider (b_cstart) ?ce
    | (b_cend) "\<not> ?ce" ?cx
    | (b_string) "\<not> ?ce" "\<not> ?cx" ?cs
    | (b_paren) "\<not> ?ce" "\<not> ?cx" "\<not> ?cs" "c = CHR ''(''"
    | (b_open) "\<not> ?ce" "\<not> ?cx" "\<not> ?cs" "c \<noteq> CHR ''(''" "c = CHR ''[''"
    | (b_close) "\<not> ?ce" "\<not> ?cx" "\<not> ?cs" "c \<noteq> CHR ''(''" "c \<noteq> CHR ''[''" "c = CHR '']''"
    | (b_comma) "\<not> ?ce" "\<not> ?cx" "\<not> ?cs" "c \<noteq> CHR ''(''" "c \<noteq> CHR ''[''" "c \<noteq> CHR '']''"
        "c = CHR '',''"
    | (b_digit) "\<not> ?ce" "\<not> ?cx" "\<not> ?cs" "c \<noteq> CHR ''(''" "c \<noteq> CHR ''[''" "c \<noteq> CHR '']''"
        "c \<noteq> CHR '',''" "isdigit c"
    | (b_name) "\<not> ?ce" "\<not> ?cx" "\<not> ?cs" "c \<noteq> CHR ''(''" "c \<noteq> CHR ''[''" "c \<noteq> CHR '']''"
        "c \<noteq> CHR '',''" "\<not> isdigit c" "isalpha c \<and> islower c"
    | (b_rest) "\<not> ?ce" "\<not> ?cx" "\<not> ?cs" "c \<noteq> CHR ''(''" "c \<noteq> CHR ''[''" "c \<noteq> CHR '']''"
        "c \<noteq> CHR '',''" "\<not> isdigit c" "\<not> (isalpha c \<and> islower c)"
    by argo
  then have "ttype tok \<noteq> EOF
              \<and> (ttype tok = NAME \<longrightarrow> tvalue tok \<noteq> ''abs'' \<and> islower c)
              \<and> (ttype tok = ARRAY_START \<longrightarrow> c = CHR ''['')
              \<and> (ttype tok = ARRAY_END \<longrightarrow> c = CHR '']'')"
  proof cases
    case b_cstart
    with assms(2) Some other have "ttype tok = CONST_EXPR_START"
      by (auto simp: unfold mk_token_def)
    then show ?thesis by simp
  next
    case b_cend
    with assms(2) Some other have "ttype tok = CONST_EXPR_END"
      by (auto simp: unfold mk_token_def)
    then show ?thesis by simp
  next
    case b_string
    with assms(2) Some other have "ttype tok = STRING"
      by (auto simp: unfold mk_token_def split: sum.splits prod.splits)
    then show ?thesis by simp
  next
    case b_paren
    with assms(2) Some other have "ttype tok = DEFINE"
      by (auto simp: unfold mk_token_def split: prod.splits if_splits)
    then show ?thesis by simp
  next
    case b_open
    with assms(2) Some other have "ttype tok = ARRAY_START"
      by (auto simp: unfold mk_token_def)
    with b_open show ?thesis by simp
  next
    case b_close
    with assms(2) Some other have "ttype tok = ARRAY_END"
      by (auto simp: unfold mk_token_def)
    with b_close show ?thesis by simp
  next
    case b_comma
    with assms(2) Some other have "ttype tok = COMMA"
      by (auto simp: unfold mk_token_def)
    then show ?thesis by simp
  next
    case b_digit
    with assms(2) Some other have "ttype tok = NUMBER \<or> ttype tok = HEX_NUMBER"
      by (auto simp: unfold mk_token_def split: sum.splits prod.splits if_splits)
    then show ?thesis by auto
  next
    case b_name
    obtain a b where rn: "read_name lx = (a, b)" by (cases "read_name lx")
    have E: "get_next_token lx =
        (if a = ''abs'' then Inr (mk_token FUNCTION a lx, b)
         else if a \<in> set [''+'', ''-'', ''*'', ''/''] then Inr (mk_token OPERATOR a lx, b)
         else Inr (mk_token NAME a lx, b))"
      by (simp add: unfold Some other b_name rn del: set_simps)
    show ?thesis
    proof (cases "a = ''abs''")
      case True
      with E assms(2) have "tok = mk_token FUNCTION a lx" by simp
      then show ?thesis by (simp add: mk_token_def)
    next
      case na: False
      show ?thesis
      proof (cases "a \<in> set [''+'', ''-'', ''*'', ''/'']")
        case True
        with na E assms(2) have "tok = mk_token OPERATOR a lx" by simp
        then show ?thesis by (simp add: mk_token_def)
      next
        case False
        with na E assms(2) have "tok = mk_token NAME a lx" by simp
        with na b_name show ?thesis by (simp add: mk_token_def)
      qed
    qed
  next
    case b_rest
    have E: "get_next_token lx =
        (if c \<in> set ''+-*/'' then Inr (mk_token OPERATOR [c] lx, advance lx)
         else Inl (lexer_error lx (Unexpected_character c)))"
      by (simp add: unfold Some other b_rest del: set_simps)
    show ?thesis
    proof (cases "c \<in> set ''+-*/''")
      case True
      with E assms(2) have "tok = mk_token OPERATOR [c] lx" by simp
      then show ?thesis by (simp add: mk_token_def)
    next
      case False
      with E assms(2) show ?thesis by simp
    qed
  qed
  with Some show ?thesis by simp
qed

lemma get_next_token_EOF:
  assumes "get_next_token lx = Inr (tok, lx')" and "ttype tok = EOF"
  shows "rest lx' = []"
proof -
  from get_next_token_start [OF assms(1)] obtain lx0 where
    "token_start lx0" "get_next_token lx0 = Inr (tok, lx')" by blast
  from get_next_token_at_start [OF this] assms(2)
  have "current_char lx0 = None" "lx' = lx0" by auto
  then show ?thesis by (simp add: current_char_def split: list.splits)
qed




























subsection \<open>The word abs after white space\<close>






subsection \<open>A request for a token that fails\<close>




section \<open>The claims\<close>

text \<open>
  C1. The define statement \<^verbatim>\<open>(define base_port 8000)\<close> followed by the pair
  \<^verbatim>\<open>port .{base_port 80 +}.\<close> is expected to give \<^verbatim>\<open>port = 8080\<close>. The lexer has no
  rule for the closing parenthesis: the run ends with the error "Unexpected character"
  at line 1, column 23, and \<^verbatim>\<open>convert_to_json\<close> exits with status 1. Without the
  closing parenthesis the same text gives \<^verbatim>\<open>port = 8080\<close>.
\<close>

theorem define_closing_paren_rejected:
  "translate (''(define base_port 8000)'' @ [CHR 0x0A] @ ''port .{base_port 80 +}.'')
     = Inl (SyntaxError (Unexpected_character CHR '')'') 1 23)
   \<and> convert_to_json (''(define base_port 8000)'' @ [CHR 0x0A] @ ''port .{base_port 80 +}.'')
     = SystemExit 1
   \<and> translate (''(define base_port 8000'' @ [CHR 0x0A] @ ''port .{base_port 80 +}.'')
     = Inr [(''port'', VInt 8080)]"
  by code_simp

text \<open>
  C2. In every constant-expression region, \<^verbatim>\<open>+\<close> with a string operand is expected to
  push the concatenation, a numeric operand being turned into its decimal text first.
  The evaluator of a region nested in a value (\<^verbatim>\<open>parse_const_expression_body\<close>) does
  so; the evaluator of a region after a top-level key or after a seed name
  (\<^verbatim>\<open>parse_const_expression\<close>) applies Python's \<^verbatim>\<open>+\<close> as it is, which raises
  \<^verbatim>\<open>TypeError\<close> for a string and an integer.
\<close>

theorem plus_on_string_in_top_level_region:
  "translate ''(define s foo k .{s 1 +}.'' = Inl TypeError
   \<and> translate ''(define s foo (define t .{s 1 +}. k t'' = Inr [(''k'', VStr ''foo1'')]
   \<and> apply_operator p ''+'' (st @ [VStr a, VInt b]) = Inl TypeError
   \<and> apply_operator p ''+'' (st @ [VInt b, VStr a]) = Inl TypeError
   \<and> apply_operator_body p ''+'' (st @ [VStr a, VInt b]) = Inr (st @ [VStr (a @ str_int b)])
   \<and> apply_operator_body p ''+'' (st @ [VInt b, VStr a]) = Inr (st @ [VStr (str_int b @ a)])"
proof -
  have "translate ''(define s foo k .{s 1 +}.'' = Inl TypeError"
    by code_simp
  moreover have "translate ''(define s foo (define t .{s 1 +}. k t'' = Inr [(''k'', VStr ''foo1'')]"
    by code_simp
  moreover have "apply_operator p ''+'' (st @ [VStr a, VInt b]) = Inl TypeError"
    by (simp add: apply_operator_def butlast_append)
  moreover have "apply_operator p ''+'' (st @ [VInt b, VStr a]) = Inl TypeError"
    by (simp add: apply_operator_def butlast_append)
  moreover have "apply_operator_body p ''+'' (st @ [VStr a, VInt b]) = Inr (st @ [VStr (a @ str_int b)])"
    by (simp add: apply_operator_body_def butlast_append py_str_def)
  moreover have "apply_operator_body p ''+'' (st @ [VInt b, VStr a]) = Inr (st @ [VStr (str_int b @ a)])"
    by (simp add: apply_operator_body_def butlast_append py_str_def)
  ultimately show ?thesis by simp
qed

text \<open>
  C3. A bare name met inside a constant-expression region. As stated for every region
  the claim fails: in a region nested in a value an unknown name is pushed as a string,
  and \<^verbatim>\<open>k [.{foo}.]\<close> gives the array holding the string \<^verbatim>\<open>foo\<close>.
\<close>

theorem bare_name_in_nested_region_counterexample:
  "translate ''k [.{foo}.]'' = Inr [(''k'', VList [VStr ''foo''])]"
  by code_simp

text \<open>
  C3, as amended. In a region after a top-level key or after a seed name
  (\<^verbatim>\<open>parse_const_expression\<close>) a name that is a constant pushes the stored value;
  otherwise the name is read as a decimal integer, which is pushed; and when it is
  neither, the round ends with the error "Unknown constant". In a region nested in a
  value (\<^verbatim>\<open>parse_const_expression_body\<close>) a name that is a constant pushes the stored
  value, and any other name is pushed as a string.
\<close>

theorem bare_name_in_expression:
  assumes "ttype (current_token p) = NAME" and "eat NAME p = Inr p'"
  shows "const_expression_step stack p =
           (case map_of (constants p) (tvalue (current_token p)) of
              Some v \<Rightarrow> Inr (stack @ [v], p')
            | None \<Rightarrow>
                (case py_int (tvalue (current_token p)) of
                   Some n \<Rightarrow> Inr (stack @ [VInt n], p')
                 | None \<Rightarrow> Inl (parser_error p' (Unknown_constant (tvalue (current_token p))))))
         \<and> const_expression_body_step stack p =
           (case map_of (constants p) (tvalue (current_token p)) of
              Some v \<Rightarrow> Inr (stack @ [v], p')
            | None \<Rightarrow> Inr (stack @ [VStr (tvalue (current_token p))], p'))"
  using assms eat_constants [OF assms(2)]
  by (simp add: const_expression_step_def const_expression_body_step_def Let_def)

theorem bare_name_in_expression_witness:
  "const_expression_step [VInt 1]
     \<lparr>lexer = \<lparr>rest = ''}.'', line = 1, col = 9\<rparr>,
      current_token = \<lparr>ttype = NAME, tvalue = ''foo'', tline = 1, tcol = 5\<rparr>,
      constants = [(''bar'', VInt 1)]\<rparr>
     = Inl (SyntaxError (Unknown_constant ''foo'') 1 9)
   \<and> const_expression_body_step [VInt 1]
     \<lparr>lexer = \<lparr>rest = ''}.'', line = 1, col = 9\<rparr>,
      current_token = \<lparr>ttype = NAME, tvalue = ''foo'', tline = 1, tcol = 5\<rparr>,
      constants = [(''bar'', VInt 1)]\<rparr>
     = Inr ([VInt 1, VStr ''foo''],
         \<lparr>lexer = \<lparr>rest = [], line = 1, col = 11\<rparr>,
          current_token = \<lparr>ttype = CONST_EXPR_END, tvalue = ''}.'', tline = 1, tcol = 9\<rparr>,
          constants = [(''bar'', VInt 1)]\<rparr>)"
proof -
  let ?p = "\<lparr>lexer = \<lparr>rest = ''}.'', line = 1, col = 9\<rparr>,
      current_token = \<lparr>ttype = NAME, tvalue = ''foo'', tline = 1, tcol = 5\<rparr>,
      constants = [(''bar'', VInt 1)]\<rparr>"
  let ?p' = "\<lparr>lexer = \<lparr>rest = [], line = 1, col = 11\<rparr>,
          current_token = \<lparr>ttype = CONST_EXPR_END, tvalue = ''}.'', tline = 1, tcol = 9\<rparr>,
          constants = [(''bar'', VInt 1)]\<rparr>"
  have e: "eat NAME ?p = Inr ?p'"
    by code_simp
  have i: "py_int ''foo'' = None"
    by code_simp
  from bare_name_in_expression [OF _ e, of "[VInt 1]"] i
  show ?thesis by (simp add: parser_error_def)
qed

text \<open>
  C4. Every failure is expected to be the one parse error, with a message, a line and a
  column. Three runs end otherwise: \<^verbatim>\<open>int('0x', 16)\<close> raises \<^verbatim>\<open>ValueError\<close> for a hex
  token without digits; \<^verbatim>\<open>abs\<close> and \<^verbatim>\<open>+\<close> on a string operand raise \<^verbatim>\<open>TypeError\<close> in a
  top-level region; and a text whose last character is the digit \<^verbatim>\<open>0\<close> starting a number
  raises \<^verbatim>\<open>TypeError\<close> in \<^verbatim>\<open>read_number\<close>, where \<^verbatim>\<open>peek()\<close> is \<^verbatim>\<open>None\<close>.
\<close>

theorem failures_outside_syntax_error:
  "translate ''k 0x'' = Inl ValueError
   \<and> translate ''(define s foo k .{s abs}.'' = Inl TypeError
   \<and> translate ''(define s foo k .{s 1 +}.'' = Inl TypeError
   \<and> translate ''k 0'' = Inl TypeError"
  by code_simp

text \<open>
  C5. A division met in a constant-expression region, in either evaluator, with integer
  operands \<open>a\<close> (second from the top) and \<open>b\<close> (top): when \<open>b\<close> is zero the round ends
  with the error "Division by zero" at the current token; otherwise the two operands are
  replaced by the floor of \<open>a / b\<close>, an integer (so -7 and 2 give -4).
\<close>

theorem division_floor_or_error:
  assumes "ttype (current_token p) = OPERATOR" and "tvalue (current_token p) = ''/''"
    and "eat OPERATOR p = Inr p'"
  shows "const_expression_step (st @ [VInt a, VInt b]) p
           = (if b = 0 then Inl (parser_error p' Division_by_zero)
              else Inr (st @ [VInt \<lfloor>real_of_int a / real_of_int b\<rfloor>], p'))
         \<and> const_expression_body_step (st @ [VInt a, VInt b]) p
           = (if b = 0 then Inl (parser_error p' Division_by_zero)
              else Inr (st @ [VInt \<lfloor>real_of_int a / real_of_int b\<rfloor>], p'))"
  using assms
  by (simp add: const_expression_step_def const_expression_body_step_def
      apply_operator_div apply_operator_body_div floor_divide_of_int_eq)

theorem division_floor_or_error_witness:
  "const_expression_step [VInt (- 7), VInt 2]
     \<lparr>lexer = \<lparr>rest = ''}.'', line = 1, col = 11\<rparr>,
      current_token = \<lparr>ttype = OPERATOR, tvalue = ''/'', tline = 1, tcol = 10\<rparr>,
      constants = []\<rparr>
     = Inr ([VInt (- 4)],
         \<lparr>lexer = \<lparr>rest = [], line = 1, col = 13\<rparr>,
          current_token = \<lparr>ttype = CONST_EXPR_END, tvalue = ''}.'', tline = 1, tcol = 11\<rparr>,
          constants = []\<rparr>)
   \<and> const_expression_body_step [VInt 7, VInt 0]
     \<lparr>lexer = \<lparr>rest = ''}.'', line = 1, col = 11\<rparr>,
      current_token = \<lparr>ttype = OPERATOR, tvalue = ''/'', tline = 1, tcol = 10\<rparr>,
      constants = []\<rparr>
     = Inl (SyntaxError Division_by_zero 1 11)"
proof -
  let ?p = "\<lparr>lexer = \<lparr>rest = ''}.'', line = 1, col = 11\<rparr>,
      current_token = \<lparr>ttype = OPERATOR, tvalue = ''/'', tline = 1, tcol = 10\<rparr>,
      constants = []\<rparr>"
  let ?p' = "\<lparr>lexer = \<lparr>rest = [], line = 1, col = 13\<rparr>,
          current_token = \<lparr>ttype = CONST_EXPR_END, tvalue = ''}.'', tline = 1, tcol = 11\<rparr>,
          constants = []\<rparr>"
  have ty: "ttype (current_token ?p) = OPERATOR" and v: "tvalue (current_token ?p) = ''/''"
    by simp_all
  have e: "eat OPERATOR ?p = Inr ?p'"
    by code_simp
  from division_floor_or_error [OF ty v e, of "[]" "- 7" 2]
    division_floor_or_error [OF ty v e, of "[]" 7 0]
  show ?thesis by (simp add: parser_error_def)
qed

text \<open>
  C6. A bare name in value position that is not followed by the start of a constant
  expression and is not a defined constant: \<^verbatim>\<open>parse_value\<close> succeeds and returns the name
  itself as a string.
\<close>

theorem undefined_bare_name_is_string:
  assumes "ttype (current_token p) = NAME"
    and "eat NAME p = Inr p'"
    and "ttype (current_token p') \<noteq> CONST_EXPR_START"
    and "map_of (constants p) (tvalue (current_token p)) = None"
  shows "parse_value p = Inr (VStr (tvalue (current_token p)), p')"
  using assms eat_constants [OF assms(2)]
  by (simp add: parse_value.simps [of p])

theorem undefined_bare_name_is_string_witness:
  "parse_value
     \<lparr>lexer = \<lparr>rest = [], line = 1, col = 6\<rparr>,
      current_token = \<lparr>ttype = NAME, tvalue = ''foo'', tline = 1, tcol = 3\<rparr>,
      constants = [(''bar'', VInt 1)]\<rparr>
     = Inr (VStr ''foo'',
         \<lparr>lexer = \<lparr>rest = [], line = 1, col = 6\<rparr>,
          current_token = \<lparr>ttype = EOF, tvalue = [], tline = 1, tcol = 6\<rparr>,
          constants = [(''bar'', VInt 1)]\<rparr>)"
proof -
  let ?p = "\<lparr>lexer = \<lparr>rest = [], line = 1, col = 6\<rparr>,
      current_token = \<lparr>ttype = NAME, tvalue = ''foo'', tline = 1, tcol = 3\<rparr>,
      constants = [(''bar'', VInt 1)]\<rparr>"
  let ?p' = "\<lparr>lexer = \<lparr>rest = [], line = 1, col = 6\<rparr>,
          current_token = \<lparr>ttype = EOF, tvalue = [], tline = 1, tcol = 6\<rparr>,
          constants = [(''bar'', VInt 1)]\<rparr>"
  have e: "eat NAME ?p = Inr ?p'"
    by code_simp
  have "parse_value ?p = Inr (VStr (tvalue (current_token ?p)), ?p')"
    by (rule undefined_bare_name_is_string [OF _ e]) simp_all
  then show ?thesis by simp
qed

text \<open>
  C7. The pair \<^verbatim>\<open>negative_value .{5 10 - abs}.\<close> gives the integer 5: the operator
  \<^verbatim>\<open>-\<close> takes the top of the stack as its right operand, so 5 and 10 give -5, and
  \<^verbatim>\<open>abs\<close> replaces -5 by 5.
\<close>

theorem abs_of_negative_difference:
  "translate ''negative_value .{5 10 - abs}.'' = Inr [(''negative_value'', VInt 5)]
   \<and> apply_operator p ''-'' [VInt 5, VInt 10] = Inr [VInt (- 5)]
   \<and> apply_function p ''abs'' [VInt (- 5)] = Inr [VInt 5]"
proof -
  have "translate ''negative_value .{5 10 - abs}.'' = Inr [(''negative_value'', VInt 5)]"
    by code_simp
  moreover have "apply_operator p ''-'' [VInt 5, VInt 10] = Inr [VInt (- 5)]"
    by (simp add: apply_operator_def)
  moreover have "apply_function p ''abs'' [VInt (- 5)] = Inr [VInt 5]"
    by (simp add: apply_function_def)
  ultimately show ?thesis by simp
qed







end
